theory Spec2Isabelle
  imports Complex_Main
begin

section \<open>Data model of \<open>script.js\<close>\<close>

text \<open>
  The script keeps point clouds in \<open>Float32Array\<close> objects. An element of such an array is
  a number or NaN; the script only ever copies elements, so a number is kept as the real it
  denotes. Arrays are objects with an identity: they live in a store, addressed by their
  position in it. The array that \<open>new Float32Array(n)\<close> creates takes the next free
  address; it enters the store once the loop that fills it has run, and nothing else is
  allocated in between.
\<close>

datatype f32 = Num real | NaN

type_synonym addr = nat
type_synonym heap = "f32 list list"

text \<open>
  A position attribute of a mesh (\<open>child.geometry.attributes.position\<close>): the array it wraps
  and its \<open>count\<close>, the number of points. The item size is 3, so a well-formed attribute
  wraps an array of \<open>3 * count\<close> floats.
\<close>

record attribute =
  array :: addr
  count :: nat

datatype error = TypeError

text \<open>A tween registered by \<open>gsap.fromTo\<close> on the \<open>uProgress\<close> uniform.\<close>

record tween =
  from_value :: real
  to_value :: real
  duration :: real
  ease :: string

text \<open>
  The \<open>particles\<close> object, with the fields the morphing logic reads and writes:
  \<open>position_attr\<close> and \<open>aPositionTarget\<close> are the two entries of
  \<open>particles.geometry.attributes\<close> (\<open>None\<close> is \<open>undefined\<close>), \<open>uProgress\<close> is
  \<open>particles.material.uniforms.uProgress.value\<close>, \<open>rotation\<close> the angle that the render
  callback writes to all three axes of \<open>particles.points.rotation\<close>, and \<open>tweens\<close> the
  tweens that the script has started on \<open>uProgress\<close> and that are still running. The
  animation engine moves the value of a running tween with the clock and ends the tween
  when its duration has passed; that is no step of the script, and none of the script's
  functions below takes it. The law of a running tween is stated apart.
\<close>

record particle_set =
  index :: int
  maxCount :: nat
  positions :: "attribute list"
  position_attr :: "attribute option"
  aPositionTarget :: "attribute option"
  uProgress :: real
  rotation :: real
  tweens :: "tween list"

text \<open>
  The state of the page: the store of arrays, the number of calls made to \<open>Math.random\<close>
  so far, the global \<open>particles\<close> (\<open>None\<close> is \<open>null\<close>) and the period in milliseconds
  of the interval timer once \<open>setInterval\<close> has registered it.
\<close>

record world =
  store :: heap
  rnd_calls :: nat
  particles :: "particle_set option"
  interval_ms :: "nat option"

section \<open>Array access\<close>

text \<open>
  Reading a JavaScript array outside its bounds gives \<open>undefined\<close> (\<open>None\<close>), and storing
  \<open>undefined\<close> in a \<open>Float32Array\<close> stores NaN.
\<close>

definition js_index :: "'a list \<Rightarrow> int \<Rightarrow> 'a option" where
  "js_index xs i = (if 0 \<le> i \<and> i < int (length xs) then Some (xs ! nat i) else None)"

definition to_f32 :: "f32 option \<Rightarrow> f32" where
  "to_f32 v = (case v of None \<Rightarrow> NaN | Some x \<Rightarrow> x)"

definition alloc :: "heap \<Rightarrow> f32 list \<Rightarrow> addr \<times> heap" where
  "alloc h xs = (length h, h @ [xs])"

section \<open>Normalisation of the point clouds (the \<open>onLoad\<close> callback)\<close>

text \<open>The first loop: \<open>particles.maxCount\<close> starts at 0 and is raised by every larger count.\<close>

fun max_loop :: "attribute list \<Rightarrow> nat \<Rightarrow> nat" where
  "max_loop [] m = m"
| "max_loop (position # rest) m =
     max_loop rest (if count position > m then count position else m)"

text \<open>
  JavaScript numbers are IEEE doubles: a product is the exact product rounded to the
  nearest double, a tie going to the double with the even significand. A double has a
  significand of 53 bits, so the doubles next to \<open>x\<close> are the multiples of
  \<open>2 ^ (e - 52)\<close> where \<open>2 ^ e \<le> \<bar>x\<bar> < 2 ^ (e + 1)\<close>. The exponent is left
  unbounded: the numbers of this script are far from overflow, and a product of a count
  and a double that falls below the normal range is exact there, as it is here.
\<close>

definition round_half_even :: "real \<Rightarrow> int" where
  "round_half_even y =
     (let n = \<lfloor>y\<rfloor>; d = y - of_int n in
      if d < 1 / 2 then n else if 1 / 2 < d then n + 1 else if even n then n else n + 1)"

definition round_double :: "real \<Rightarrow> real" where
  "round_double x =
     (if x = 0 then 0
      else let e = \<lfloor>log 2 \<bar>x\<bar>\<rfloor>; u = 2 powr (of_int e - 52)
           in u * of_int (round_half_even (x / u)))"

text \<open>
  \<open>Math.floor(position.count * Math.random()) * 3\<close>, for the double \<open>r\<close> that
  \<open>Math.random\<close> returned: the product is rounded before the floor is taken. A count
  is an integer below \<open>2 ^ 53\<close> and so is three times the floor: both are exact.
\<close>

definition random_index :: "nat \<Rightarrow> real \<Rightarrow> int" where
  "random_index cnt r = \<lfloor>round_double (real cnt * r)\<rfloor> * 3"

text \<open>
  One iteration of the inner loop, for the slot \<open>i\<close>. The state is the array under
  construction and the number of calls to \<open>Math.random\<close>; \<open>rnd k\<close> is what call number
  \<open>k\<close> returns. The writes are in range of the new array; a write out of range of a typed
  array would be dropped, which is also what \<open>list_update\<close> does.
\<close>

definition fill_slot ::
  "(nat \<Rightarrow> real) \<Rightarrow> f32 list \<Rightarrow> nat \<Rightarrow> nat \<Rightarrow> f32 list \<times> nat \<Rightarrow> f32 list \<times> nat" where
  "fill_slot rnd originalArray cnt i st =
     (case st of (newArray, k) \<Rightarrow>
        let i3 = i * 3 in
        if i3 < length originalArray then
          (newArray
             [i3 + 0 := to_f32 (js_index originalArray (int (i3 + 0))),
              i3 + 1 := to_f32 (js_index originalArray (int (i3 + 1))),
              i3 + 2 := to_f32 (js_index originalArray (int (i3 + 2)))], k)
        else
          let randomIndex = random_index cnt (rnd k) in
          (newArray
             [i3 + 0 := to_f32 (js_index originalArray (randomIndex + 0)),
              i3 + 1 := to_f32 (js_index originalArray (randomIndex + 1)),
              i3 + 2 := to_f32 (js_index originalArray (randomIndex + 2))], Suc k))"

text \<open>
  The body of the second loop for one attribute that is not skipped:
  \<open>new Float32Array(maxCount * 3)\<close> is zero-filled, then the slots \<open>0 .. maxCount - 1\<close>
  are filled in order.
\<close>

definition pad :: "(nat \<Rightarrow> real) \<Rightarrow> nat \<Rightarrow> f32 list \<Rightarrow> nat \<Rightarrow> nat \<Rightarrow> f32 list \<times> nat" where
  "pad rnd m originalArray cnt k =
     fold (fill_slot rnd originalArray cnt) [0..<m] (replicate (m * 3) (Num 0), k)"

text \<open>
  The second loop. An attribute whose array length equals \<open>maxCount\<close> is skipped by
  \<open>continue\<close>: nothing is pushed for it. For every other attribute a new array is
  allocated, filled and pushed, wrapped in a new attribute of item size 3.
\<close>

fun norm_loop ::
  "(nat \<Rightarrow> real) \<Rightarrow> nat \<Rightarrow> attribute list \<Rightarrow> heap \<times> nat \<times> attribute list
     \<Rightarrow> heap \<times> nat \<times> attribute list" where
  "norm_loop rnd m [] st = st"
| "norm_loop rnd m (position # rest) (h, k, out) =
     (let originalArray = h ! array position in
      if length originalArray = m then norm_loop rnd m rest (h, k, out)
      else
        case pad rnd m originalArray (count position) k of (newArray, k') \<Rightarrow>
        case alloc h newArray of (a, h') \<Rightarrow>
          norm_loop rnd m rest
            (h', k', out @ [\<lparr>array = a, count = length newArray div 3\<rparr>]))"

text \<open>
  The callback that the loader runs with the decoded point clouds. The random sizes take
  \<open>maxCount\<close> further calls to \<open>Math.random\<close>; their values, the colours and the material
  play no part in what follows and are left out.
\<close>

definition on_load :: "(nat \<Rightarrow> real) \<Rightarrow> attribute list \<Rightarrow> world \<Rightarrow> world" where
  "on_load rnd ps w =
     (let m = max_loop ps 0 in
      case norm_loop rnd m ps (store w, rnd_calls w, []) of (h', k', out) \<Rightarrow>
        w\<lparr>store := h',
          rnd_calls := k' + m,
          particles := Some
            \<lparr>index = 0, maxCount = m, positions = out,
             position_attr = js_index out 0, aPositionTarget = None,
             uProgress = 0, rotation = 0, tweens = []\<rparr>\<rparr>)"

section \<open>Morphing\<close>

text \<open>
  \<open>gsap.fromTo(target, {value: a}, {value: b, duration: d, ease: e})\<close> writes the start
  value to the target at once and registers a tween; the call passes no \<open>overwrite\<close>
  option, so the tweens registered before stay registered.
\<close>

definition gsap_fromTo :: "real \<Rightarrow> real \<Rightarrow> real \<Rightarrow> string \<Rightarrow> particle_set \<Rightarrow> particle_set" where
  "gsap_fromTo a b d e p =
     p\<lparr>uProgress := a,
       tweens := tweens p @ [\<lparr>from_value = a, to_value = b, duration = d, ease = e\<rparr>]\<rparr>"

definition morph :: "int \<Rightarrow> particle_set \<Rightarrow> particle_set" where
  "morph idx p =
     (let p1 = p\<lparr>position_attr := js_index (positions p) (index p)\<rparr>;
          p2 = p1\<lparr>aPositionTarget := js_index (positions p1) idx\<rparr>;
          p3 = gsap_fromTo 0 1 3 ''linear'' p2
      in p3\<lparr>index := idx\<rparr>)"

section \<open>The timer and the render callback\<close>

text \<open>
  The body of the interval callback once \<open>particles\<close> is an object, and the callback
  itself: reading \<open>particles.index\<close> while \<open>particles\<close> is \<open>null\<close> throws a TypeError.
\<close>

definition auto_advance :: "particle_set \<Rightarrow> particle_set" where
  "auto_advance p =
     (if index p \<ge> int (length (positions p)) - 1 then morph 0 p
      else morph (index p + 1) p)"

definition timer_callback :: "world \<Rightarrow> error + world" where
  "timer_callback w =
     (case particles w of
        None \<Rightarrow> Inl TypeError
      | Some p \<Rightarrow> Inr (w\<lparr>particles := Some (auto_advance p)\<rparr>))"

text \<open>The render callback guards its only use of \<open>particles\<close> with \<open>if (particles)\<close>.\<close>

definition tick :: "real \<Rightarrow> world \<Rightarrow> error + world" where
  "tick elapsedTime w =
     (case particles w of
        None \<Rightarrow> Inr w
      | Some p \<Rightarrow>
          Inr (w\<lparr>particles :=
                 Some (p\<lparr>rotation := round_double (elapsedTime * round_double 0.02)\<rparr>)\<rparr>))"

text \<open>
  The state once the script has run to its end: \<open>particles\<close> is still \<open>null\<close> (the loader
  calls \<open>on_load\<close> later), and \<open>swapModels\<close> has registered the interval of 4000 ms.
\<close>

definition swapModels :: "world \<Rightarrow> world" where
  "swapModels w = w\<lparr>interval_ms := Some 4000\<rparr>"

definition script_load :: "heap \<Rightarrow> world" where
  "script_load h =
     swapModels \<lparr>store = h, rnd_calls = 0, particles = None, interval_ms = None\<rparr>"

section \<open>The fragment shader\<close>

text \<open>
  \<open>fragment.glsl\<close>, with the shader's floats read as reals. A division by zero does not
  fault in GLSL and its result is not a finite number: it is \<open>None\<close> here.
\<close>

definition distanceToCenter :: "real \<times> real \<Rightarrow> real" where
  "distanceToCenter uv = sqrt ((fst uv - 0.5)\<^sup>2 + (snd uv - 0.5)\<^sup>2)"

definition alpha :: "real \<Rightarrow> real option" where
  "alpha d = (if d = 0 then None else Some (0.05 / d - 0.1))"

definition main :: "real \<times> real \<Rightarrow> real \<times> real \<times> real \<times> real option" where
  "main gl_PointCoord =
     (let uv = gl_PointCoord;
          d = distanceToCenter uv
      in (1, 1, 1, alpha d))"

section \<open>Notions used to state the properties\<close>


text \<open>
  Whether the second loop skips an attribute, the number of attributes it has pushed when
  it reaches input number \<open>i\<close> (the index in \<open>particles.positions\<close> of what it
  pushes for that input), and what the loader hands over: every attribute wraps an array
  of the store, of three floats per point.
\<close>

definition skipped :: "heap \<Rightarrow> nat \<Rightarrow> attribute \<Rightarrow> bool" where
  "skipped h m p = (length (h ! array p) = m)"

definition out_index :: "heap \<Rightarrow> nat \<Rightarrow> attribute list \<Rightarrow> nat \<Rightarrow> nat" where
  "out_index h m ps i = length (filter (\<lambda>p. \<not> skipped h m p) (take i ps))"

definition well_formed :: "heap \<Rightarrow> attribute \<Rightarrow> bool" where
  "well_formed h p = (array p < length h \<and> length (h ! array p) = 3 * count p)"



text \<open>What can be seen of the result: the attributes in \<open>particles.positions\<close>.\<close>

definition out_attrs :: "world \<Rightarrow> attribute list" where
  "out_attrs w = (case particles w of None \<Rightarrow> [] | Some p \<Rightarrow> positions p)"

text \<open>The targets of the first \<open>k\<close> firings of the timer, in order.\<close>

definition visited :: "nat \<Rightarrow> particle_set \<Rightarrow> int list" where
  "visited k p = map (\<lambda>j. index ((auto_advance ^^ j) p)) [1..<Suc k]"

text \<open>
  The attribute pushed for input number \<open>i\<close> by the callback, and the array that an
  attribute wraps in a given state.
\<close>

definition variant_out :: "(nat \<Rightarrow> real) \<Rightarrow> attribute list \<Rightarrow> world \<Rightarrow> nat \<Rightarrow> attribute" where
  "variant_out rnd ps w i =
     out_attrs (on_load rnd ps w) ! out_index (store w) (max_loop ps 0) ps i"

definition contents :: "world \<Rightarrow> attribute \<Rightarrow> f32 list" where
  "contents w a = store w ! array a"

text \<open>
  \<open>k\<close> firings of the timer in a row, with nothing else running in between. An
  exception that the callback throws is not caught by the script: the firing ends there,
  having changed nothing, and the timer goes on. The result is the list of the faults and
  the state reached.
\<close>

fun fires :: "nat \<Rightarrow> world \<Rightarrow> error list \<times> world" where
  "fires 0 w = ([], w)"
| "fires (Suc k) w =
     (case timer_callback w of
        Inl e \<Rightarrow> (case fires k w of (es, w') \<Rightarrow> (e # es, w'))
      | Inr w' \<Rightarrow> fires k w')"

section \<open>The tween engine\<close>

text \<open>
  Modelled from the spec: the engine that moves a running tween (gsap) is not among the
  sources. The spec says that within a transition progress "animates 0 to 1 over a fixed
  duration (3 time units) under a linear easing law". \<open>tween_value tw t\<close> is the value
  that a tween has \<open>t\<close> time units after its start under that law: its start value
  until then, its end value once the duration has passed, and the straight line between
  the two in between. \<open>progress_at p t\<close> is the progress \<open>t\<close> time units after the
  latest \<open>morph\<close>, as long as nothing else is called.
\<close>

definition tween_value :: "tween \<Rightarrow> real \<Rightarrow> real" where
  "tween_value tw t =
     (if t \<le> 0 then from_value tw
      else if duration tw \<le> t then to_value tw
      else from_value tw + (to_value tw - from_value tw) * (t / duration tw))"

definition progress_at :: "particle_set \<Rightarrow> real \<Rightarrow> real" where
  "progress_at p t = (if tweens p = [] then uProgress p else tween_value (last (tweens p)) t)"

section \<open>Example inputs\<close>

text \<open>A source of random numbers that returns the same number at every call.\<close>

definition const_rnd :: "real \<Rightarrow> nat \<Rightarrow> real" where
  "const_rnd r k = r"

text \<open>Two clouds of two and three points.\<close>

definition example_store :: heap where
  "example_store =
     [[Num 1, Num 2, Num 3, Num 4, Num 5, Num 6],
      [Num 7, Num 8, Num 9, Num 10, Num 11, Num 12, Num 13, Num 14, Num 15]]"

definition example_clouds :: "attribute list" where
  "example_clouds = [\<lparr>array = 0, count = 2\<rparr>, \<lparr>array = 1, count = 3\<rparr>]"

text \<open>
  Two clouds of one and three points: the array of the first has as many floats as the
  second has points.
\<close>

definition thirds_store :: heap where
  "thirds_store =
     [[Num 1, Num 2, Num 3],
      [Num 4, Num 5, Num 6, Num 7, Num 8, Num 9, Num 10, Num 11, Num 12]]"

definition thirds_clouds :: "attribute list" where
  "thirds_clouds = [\<lparr>array = 0, count = 1\<rparr>, \<lparr>array = 1, count = 3\<rparr>]"

text \<open>A cloud without points beside a cloud of one point.\<close>

definition hollow_store :: heap where
  "hollow_store = [[], [Num 1, Num 2, Num 3]]"

definition hollow_clouds :: "attribute list" where
  "hollow_clouds = [\<lparr>array = 0, count = 0\<rparr>, \<lparr>array = 1, count = 1\<rparr>]"

text \<open>
  Four clouds of one point each, and the particle set that the callback builds from them.
\<close>

definition four_store :: heap where
  "four_store =
     [[Num 1, Num 2, Num 3], [Num 4, Num 5, Num 6], [Num 7, Num 8, Num 9],
      [Num 10, Num 11, Num 12]]"

definition four_clouds :: "attribute list" where
  "four_clouds =
     [\<lparr>array = 0, count = 1\<rparr>, \<lparr>array = 1, count = 1\<rparr>, \<lparr>array = 2, count = 1\<rparr>,
      \<lparr>array = 3, count = 1\<rparr>]"

definition four_particles :: particle_set where
  "four_particles =
     \<lparr>index = 0, maxCount = 1,
      positions =
        [\<lparr>array = 4, count = 1\<rparr>, \<lparr>array = 5, count = 1\<rparr>, \<lparr>array = 6, count = 1\<rparr>,
         \<lparr>array = 7, count = 1\<rparr>],
      position_attr = Some \<lparr>array = 4, count = 1\<rparr>, aPositionTarget = None,
      uProgress = 0, rotation = 0, tweens = []\<rparr>"

section \<open>The padding loop\<close>

lemma fill_slot_length:
  "length (fst (fill_slot rnd orig c i st)) = length (fst st)"
  by (cases st) (simp add: fill_slot_def Let_def)

lemma fill_slot_below:
  "j < 3 * i \<Longrightarrow> fst (fill_slot rnd orig c i st) ! j = fst st ! j"
  by (cases st) (simp add: fill_slot_def Let_def)

lemma nat_int3:
  "nat (int a * 3) = a * 3" "nat (1 + int a * 3) = Suc (a * 3)"
  "nat (2 + int a * 3) = Suc (Suc (a * 3))"
  "nat (3 * int a) = 3 * a" "nat (1 + 3 * int a) = Suc (3 * a)"
  "nat (2 + 3 * int a) = Suc (Suc (3 * a))"
  "nat (3 * int a + 1) = Suc (3 * a)" "nat (3 * int a + 2) = Suc (Suc (3 * a))"
  by arith+

lemma fill_slot_copy:
  assumes "i * 3 < length orig" "length orig = 3 * c" "length new = 3 * m" "i < m"
    and "3 * i \<le> j" "j < 3 * i + 3"
  shows "fst (fill_slot rnd orig c i (new, k)) ! j = orig ! j"
proof -
  from assms(5,6) consider "j = i * 3" | "j = i * 3 + 1" | "j = i * 3 + 2" by arith
  then show ?thesis
    using assms(1-4)
    by cases (simp_all add: fill_slot_def Let_def js_index_def to_f32_def nth_list_update nat_int3)
qed



lemma round_half_even_int: "round_half_even (of_int n) = n"
  by (simp add: round_half_even_def)





lemma round_double_at:
  assumes "0 < x" "2 powr of_int e \<le> x" "x < 2 powr of_int (e + 1)"
  shows "round_double x = 2 powr (of_int e - 52) * of_int (round_half_even (x / 2 powr (of_int e - 52)))"
proof -
  have "\<lfloor>log 2 x\<rfloor> = e" using assms by (simp add: floor_log_eq_powr_iff)
  then show ?thesis using assms(1) by (simp add: round_double_def Let_def)
qed

lemma round_double_0: "round_double 0 = 0"
  by (simp add: round_double_def)

lemma round_double_1: "round_double 1 = 1"
proof -
  have "round_half_even 4503599627370496 = 4503599627370496"
    using round_half_even_int [of 4503599627370496] by simp
  then show ?thesis
    using round_double_at [of 1 0] by (simp add: powr_minus_divide)
qed



lemma random_index_ties_to_even:
  "random_index 7 (2573485501354569 / 2 ^ 52) = 12 \<and>
   \<lfloor>7 * (2573485501354569 / 2 ^ 52 :: real)\<rfloor> * 3 = 9"
proof -
  let ?x = "7 * (2573485501354569 / 2 ^ 52) :: real"
  have rh: "round_half_even (18014398509481983 / 2) = 2 ^ 53"
    by (simp add: round_half_even_def Let_def)
  have "round_double ?x = 2 powr (of_int 1 - 52) * of_int (round_half_even (?x / 2 powr (of_int 1 - 52)))"
    by (rule round_double_at) simp_all
  also have "?x / 2 powr (of_int 1 - 52) = 18014398509481983 / 2"
    by (simp add: powr_minus_divide)
  finally have "round_double ?x = 4" by (simp add: rh powr_minus_divide)
  then show ?thesis by (simp add: random_index_def)
qed




lemma fold_fill_length:
  "length (fst (fold (fill_slot rnd orig c) [0..<n] st)) = length (fst st)"
  by (induction n) (simp_all add: fill_slot_length)


lemma fold_fill_copy:
  assumes "length orig = 3 * c" "length (fst st) = 3 * m"
  shows "n \<le> m \<Longrightarrow> j < 3 * min n c \<Longrightarrow>
    fst (fold (fill_slot rnd orig c) [0..<n] st) ! j = orig ! j"
proof (induction n)
  case 0
  then show ?case by simp
next
  case (Suc n)
  let ?st = "fold (fill_slot rnd orig c) [0..<n] st"
  have len: "length (fst ?st) = 3 * m" by (simp add: fold_fill_length assms(2))
  show ?case
  proof (cases "j < 3 * n")
    case True
    with Suc have "fst ?st ! j = orig ! j" by simp
    with True show ?thesis by (simp add: fill_slot_below)
  next
    case False
    with Suc.prems have n: "n < c" "n < m" "3 * n \<le> j" "j < 3 * n + 3" by (auto simp: min_def split: if_splits)
    then have "n * 3 < length orig" using assms(1) by simp
    from fill_slot_copy [OF this assms(1) len n(2) n(3) n(4), of rnd "snd ?st"]
    show ?thesis by simp
  qed
qed


lemma pad_length: "length (fst (pad rnd m orig c k)) = 3 * m"
  by (simp add: pad_def fold_fill_length)

lemma pad_copy:
  "length orig = 3 * c \<Longrightarrow> j < 3 * min m c \<Longrightarrow> fst (pad rnd m orig c k) ! j = orig ! j"
  unfolding pad_def by (rule fold_fill_copy [where m = m]) simp_all



lemma pad_full: "length orig = 3 * m \<Longrightarrow> fst (pad rnd m orig m k) = orig"
  by (rule nth_equalityI) (simp_all add: pad_length pad_copy)

section \<open>The loop over the attributes\<close>

lemma skipped_append: "array p < length h \<Longrightarrow> skipped (h @ hs) m p = skipped h m p"
  by (simp add: skipped_def nth_append)

lemma out_index_append:
  "list_all (\<lambda>p. array p < length h) ps \<Longrightarrow> out_index (h @ hs) m ps i = out_index h m ps i"
proof -
  assume v: "list_all (\<lambda>p. array p < length h) ps"
  have "filter (\<lambda>p. \<not> skipped (h @ hs) m p) (take i ps) = filter (\<lambda>p. \<not> skipped h m p) (take i ps)"
  proof (rule filter_cong [OF refl])
    fix p assume "p \<in> set (take i ps)"
    then have "p \<in> set ps" by (rule in_set_takeD)
    with v have "array p < length h" by (simp add: list_all_iff)
    then show "(\<not> skipped (h @ hs) m p) = (\<not> skipped h m p)" by (simp add: skipped_append)
  qed
  then show ?thesis by (simp add: out_index_def)
qed

lemma norm_loop_extends:
  "norm_loop rnd m ps (h, k, out) = (h', k', out') \<Longrightarrow>
     (\<exists>hs. h' = h @ hs) \<and> (\<exists>os. out' = out @ os)"
proof (induction ps arbitrary: h k out)
  case Nil
  then show ?case by simp
next
  case (Cons p ps)
  show ?case
  proof (cases "length (h ! array p) = m")
    case True
    with Cons.prems have "norm_loop rnd m ps (h, k, out) = (h', k', out')" by simp
    then show ?thesis by (rule Cons.IH)
  next
    case False
    obtain new k1 where pd: "pad rnd m (h ! array p) (count p) k = (new, k1)"
      by (cases "pad rnd m (h ! array p) (count p) k")
    with False Cons.prems have
      "norm_loop rnd m ps (h @ [new], k1, out @ [\<lparr>array = length h, count = length new div 3\<rparr>])
         = (h', k', out')"
      by (simp add: alloc_def)
    from Cons.IH [OF this] show ?thesis by auto
  qed
qed

lemma norm_loop_count:
  "list_all (\<lambda>p. array p < length h) ps \<Longrightarrow>
   norm_loop rnd m ps (h, k, out) = (h', k', out') \<Longrightarrow>
   length out' = length out + out_index h m ps (length ps)"
proof (induction ps arbitrary: h k out)
  case Nil
  then show ?case by (simp add: out_index_def)
next
  case (Cons p ps)
  from Cons.prems(1) have vp: "array p < length h" and vps: "list_all (\<lambda>p. array p < length h) ps"
    by simp_all
  show ?case
  proof (cases "length (h ! array p) = m")
    case True
    with Cons.prems have "norm_loop rnd m ps (h, k, out) = (h', k', out')" by simp
    from Cons.IH [OF vps this] True show ?thesis by (simp add: out_index_def skipped_def)
  next
    case False
    obtain new k1 where pd: "pad rnd m (h ! array p) (count p) k = (new, k1)"
      by (cases "pad rnd m (h ! array p) (count p) k")
    with False Cons.prems have run:
      "norm_loop rnd m ps (h @ [new], k1, out @ [\<lparr>array = length h, count = length new div 3\<rparr>])
         = (h', k', out')"
      by (simp add: alloc_def)
    have vps': "list_all (\<lambda>p. array p < length (h @ [new])) ps"
      using vps by (simp add: list_all_iff less_Suc_eq)
    from Cons.IH [OF vps' run] have
      "length out' = Suc (length out) + out_index (h @ [new]) m ps (length ps)" by simp
    also have "out_index (h @ [new]) m ps (length ps) = out_index h m ps (length ps)"
      by (rule out_index_append [OF vps])
    finally show ?thesis using False by (simp add: out_index_def skipped_def)
  qed
qed

lemma norm_loop_nth:
  "list_all (\<lambda>p. array p < length h) ps \<Longrightarrow> i < length ps \<Longrightarrow> \<not> skipped h m (ps ! i) \<Longrightarrow>
   norm_loop rnd m ps (h, k, out) = (h', k', out') \<Longrightarrow>
   length out + out_index h m ps i < length out' \<and>
   length h \<le> array (out' ! (length out + out_index h m ps i)) \<and>
   array (out' ! (length out + out_index h m ps i)) < length h' \<and>
   count (out' ! (length out + out_index h m ps i)) = m \<and>
   (\<exists>k0. h' ! array (out' ! (length out + out_index h m ps i))
      = fst (pad rnd m (h ! array (ps ! i)) (count (ps ! i)) k0))"
proof (induction ps arbitrary: h k out i)
  case Nil
  then show ?case by simp
next
  case (Cons p ps)
  from Cons.prems(1) have vp: "array p < length h" and vps: "list_all (\<lambda>p. array p < length h) ps"
    by simp_all
  show ?case
  proof (cases "length (h ! array p) = m")
    case True
    with Cons.prems(3) obtain i' where i: "i = Suc i'"
      by (cases i) (auto simp: skipped_def)
    from True Cons.prems(4) have run: "norm_loop rnd m ps (h, k, out) = (h', k', out')" by simp
    from Cons.prems(2,3) i have "i' < length ps" "\<not> skipped h m (ps ! i')" by simp_all
    from Cons.IH [OF vps this run] True i show ?thesis
      by (simp add: out_index_def skipped_def)
  next
    case False
    obtain new k1 where pd: "pad rnd m (h ! array p) (count p) k = (new, k1)"
      by (cases "pad rnd m (h ! array p) (count p) k")
    let ?a = "\<lparr>array = length h, count = length new div 3\<rparr>"
    from pd False Cons.prems(4) have run:
      "norm_loop rnd m ps (h @ [new], k1, out @ [?a]) = (h', k', out')"
      by (simp add: alloc_def)
    have new: "new = fst (pad rnd m (h ! array p) (count p) k)" using pd by simp
    then have lnew: "length new div 3 = m" by (simp add: pad_length)
    show ?thesis
    proof (cases i)
      case 0
      from norm_loop_extends [OF run] obtain hs os where
        ext: "h' = (h @ [new]) @ hs" "out' = (out @ [?a]) @ os" by blast
      have "out' ! length out = ?a" using ext(2) by (simp add: nth_append)
      moreover have "h' ! length h = new" using ext(1) by (simp add: nth_append)
      moreover have "length out < length out'" "length h < length h'" using ext by simp_all
      ultimately show ?thesis using 0 new lnew by (auto simp: out_index_def)
    next
      case (Suc i')
      have vps': "list_all (\<lambda>p. array p < length (h @ [new])) ps"
        using vps by (simp add: list_all_iff less_Suc_eq)
      from Cons.prems(2,3) Suc have i': "i' < length ps" "\<not> skipped h m (ps ! i')" by simp_all
      from vps i'(1) have vi: "array (ps ! i') < length h" by (simp add: list_all_length)
      with i'(2) have sk: "\<not> skipped (h @ [new]) m (ps ! i')" by (simp add: skipped_append)
      have oi: "out_index (h @ [new]) m ps i' = out_index h m ps i'"
        by (rule out_index_append [OF vps])
      have idx: "length (out @ [?a]) + out_index (h @ [new]) m ps i'
                   = length out + out_index h m (p # ps) i"
        using oi False Suc by (simp add: out_index_def skipped_def)
      have rd: "(h @ [new]) ! array (ps ! i') = h ! array (ps ! i')"
        using vi by (simp add: nth_append)
      from Cons.IH [OF vps' i'(1) sk run] show ?thesis
        unfolding idx rd using Suc by auto
    qed
  qed
qed

section \<open>The callback as a whole\<close>

lemma max_loop_fold: "max_loop ps m = fold max (map count ps) m"
  by (induction ps arbitrary: m) (simp_all add: max_def)

lemma max_loop_Max0: "max_loop ps 0 = Max (set (0 # map count ps))"
  by (simp only: max_loop_fold Max.set_eq_fold)

lemma max_loop_Max: "ps \<noteq> [] \<Longrightarrow> max_loop ps 0 = Max (count ` set ps)"
  by (simp add: max_loop_Max0)

lemma on_load_norm:
  "norm_loop rnd (max_loop ps 0) ps (store w, rnd_calls w, []) =
     (store (on_load rnd ps w), rnd_calls (on_load rnd ps w) - max_loop ps 0, out_attrs (on_load rnd ps w))"
  by (simp add: on_load_def out_attrs_def Let_def split: prod.splits)

lemma on_load_particles:
  "particles (on_load rnd ps w) = Some
     \<lparr>index = 0, maxCount = max_loop ps 0, positions = out_attrs (on_load rnd ps w),
      position_attr = js_index (out_attrs (on_load rnd ps w)) 0, aPositionTarget = None,
      uProgress = 0, rotation = 0, tweens = []\<rparr>"
  by (simp add: on_load_def out_attrs_def Let_def split: prod.splits)

lemma well_formed_valid:
  "list_all (well_formed h) ps \<Longrightarrow> list_all (\<lambda>p. array p < length h) ps"
  by (simp add: list_all_iff well_formed_def)

lemma fill_slot_empty:
  "fill_slot rnd [] c i (new, k) = (new[i * 3 := NaN, i * 3 + 1 := NaN, i * 3 + 2 := NaN], Suc k)"
proof -
  have "js_index ([] :: f32 list) z = None" for z by (simp add: js_index_def)
  then show ?thesis by (simp add: fill_slot_def to_f32_def Let_def)
qed

lemma fold_fill_empty:
  assumes "length (fst st) = 3 * m"
  shows "n \<le> m \<Longrightarrow> j < 3 * n \<Longrightarrow> fst (fold (fill_slot rnd [] c) [0..<n] st) ! j = NaN"
proof (induction n)
  case 0
  then show ?case by simp
next
  case (Suc n)
  let ?st = "fold (fill_slot rnd [] c) [0..<n] st"
  have len: "length (fst ?st) = 3 * m" by (simp add: fold_fill_length assms)
  show ?case
  proof (cases "j < 3 * n")
    case True
    with Suc have "fst ?st ! j = NaN" by simp
    with True show ?thesis by (simp add: fill_slot_below)
  next
    case False
    with Suc.prems have "j = n * 3 \<or> j = n * 3 + 1 \<or> j = n * 3 + 2" "n < m" by arith+
    then show ?thesis using len
      by (cases ?st) (auto simp: fill_slot_empty nth_list_update)
  qed
qed

lemma pad_empty: "fst (pad rnd m [] c k) = replicate (3 * m) NaN"
proof (rule nth_equalityI)
  show "length (fst (pad rnd m [] c k)) = length (replicate (3 * m) NaN)"
    by (simp add: pad_length)
next
  fix j assume "j < length (fst (pad rnd m [] c k))"
  then have j: "j < 3 * m" by (simp add: pad_length)
  have "fst (pad rnd m [] c k) ! j = NaN"
    unfolding pad_def by (rule fold_fill_empty [where m = m]) (simp_all add: j)
  with j show "fst (pad rnd m [] c k) ! j = replicate (3 * m) NaN ! j" by simp
qed

lemma variant_out_facts:
  assumes wf: "list_all (well_formed (store w)) ps" and i: "i < length ps"
    and keep: "length (store w ! array (ps ! i)) \<noteq> max_loop ps 0"
  shows "out_index (store w) (max_loop ps 0) ps i < length (out_attrs (on_load rnd ps w))"
    and "length (store w) \<le> array (variant_out rnd ps w i)"
    and "array (variant_out rnd ps w i) < length (store (on_load rnd ps w))"
    and "count (variant_out rnd ps w i) = max_loop ps 0"
    and "\<exists>k0. contents (on_load rnd ps w) (variant_out rnd ps w i)
           = fst (pad rnd (max_loop ps 0) (store w ! array (ps ! i)) (count (ps ! i)) k0)"
proof -
  have sk: "\<not> skipped (store w) (max_loop ps 0) (ps ! i)" using keep by (simp add: skipped_def)
  note n = norm_loop_nth [OF well_formed_valid [OF wf] i sk on_load_norm, of rnd]
  show "out_index (store w) (max_loop ps 0) ps i < length (out_attrs (on_load rnd ps w))"
    using n by simp
  show "length (store w) \<le> array (variant_out rnd ps w i)"
    using n by (simp add: variant_out_def)
  show "array (variant_out rnd ps w i) < length (store (on_load rnd ps w))"
    using n by (simp add: variant_out_def)
  show "count (variant_out rnd ps w i) = max_loop ps 0"
    using n by (simp add: variant_out_def)
  show "\<exists>k0. contents (on_load rnd ps w) (variant_out rnd ps w i)
           = fst (pad rnd (max_loop ps 0) (store w ! array (ps ! i)) (count (ps ! i)) k0)"
    using n by (simp add: variant_out_def contents_def)
qed

lemma on_load_store_kept:
  "a < length (store w) \<Longrightarrow> store (on_load rnd ps w) ! a = store w ! a"
proof -
  from norm_loop_extends [OF on_load_norm, of rnd ps w] obtain hs where
    "store (on_load rnd ps w) = store w @ hs" by blast
  then show "a < length (store w) \<Longrightarrow> store (on_load rnd ps w) ! a = store w ! a"
    by (simp add: nth_append)
qed

lemma well_formed_nth:
  "list_all (well_formed h) ps \<Longrightarrow> i < length ps \<Longrightarrow>
     array (ps ! i) < length h \<and> length (h ! array (ps ! i)) = 3 * count (ps ! i)"
  by (simp add: list_all_length well_formed_def)

section \<open>Evaluating the examples\<close>

lemma replicate_numeral_Cons: "replicate (numeral k) x = x # replicate (numeral k - 1) x"
  by (simp add: numeral_eq_Suc)

lemma list_update_Cons_numeral: "(x # xs)[numeral k := y] = x # xs[numeral k - 1 := y]"
  by (simp add: numeral_eq_Suc)

lemmas eval_defs = replicate_numeral_Cons list_update_Cons_numeral upt_conv_Cons
  on_load_def pad_def fill_slot_def alloc_def js_index_def to_f32_def random_index_def round_double_0 round_double_1
  const_rnd_def script_load_def swapModels_def Let_def out_attrs_def

lemma example_loaded:
  "on_load (const_rnd (1/2)) example_clouds (script_load example_store) =
     \<lparr>store = example_store @
        [[Num 1, Num 2, Num 3, Num 4, Num 5, Num 6, Num 4, Num 5, Num 6],
         [Num 7, Num 8, Num 9, Num 10, Num 11, Num 12, Num 13, Num 14, Num 15]],
      rnd_calls = 4,
      particles = Some
        \<lparr>index = 0, maxCount = 3,
         positions = [\<lparr>array = 2, count = 3\<rparr>, \<lparr>array = 3, count = 3\<rparr>],
         position_attr = Some \<lparr>array = 2, count = 3\<rparr>, aPositionTarget = None,
         uProgress = 0, rotation = 0, tweens = []\<rparr>,
      interval_ms = Some 4000\<rparr>"
  by (simp add: eval_defs example_store_def example_clouds_def)

lemma thirds_loaded:
  "out_attrs (on_load (const_rnd (1/2)) thirds_clouds (script_load thirds_store)) =
     [\<lparr>array = 2, count = 3\<rparr>]"
  by (simp add: eval_defs thirds_store_def thirds_clouds_def)

lemma hollow_loaded:
  "on_load (const_rnd (1/2)) hollow_clouds (script_load hollow_store) =
     \<lparr>store = hollow_store @ [[NaN, NaN, NaN], [Num 1, Num 2, Num 3]],
      rnd_calls = 2,
      particles = Some
        \<lparr>index = 0, maxCount = 1,
         positions = [\<lparr>array = 2, count = 1\<rparr>, \<lparr>array = 3, count = 1\<rparr>],
         position_attr = Some \<lparr>array = 2, count = 1\<rparr>, aPositionTarget = None,
         uProgress = 0, rotation = 0, tweens = []\<rparr>,
      interval_ms = Some 4000\<rparr>"
  by (simp add: eval_defs hollow_store_def hollow_clouds_def)

lemma four_loaded:
  "particles (on_load (const_rnd (1/2)) four_clouds (script_load four_store))
     = Some four_particles"
  by (simp add: eval_defs four_store_def four_clouds_def four_particles_def)

section \<open>Morphing and the timer\<close>

lemma morph_tween:
  "uProgress (morph j p) = 0"
  "tweens (morph j p) \<noteq> []"
  "last (tweens (morph j p)) = \<lparr>from_value = 0, to_value = 1, duration = 3, ease = ''linear''\<rparr>"
  by (simp_all add: morph_def gsap_fromTo_def Let_def)

lemma progress_at_morph:
  "progress_at (morph j p) t = (if t \<le> 0 then 0 else if 3 \<le> t then 1 else t / 3)"
  by (simp add: progress_at_def morph_tween tween_value_def)

lemma js_index_outside: "j < 0 \<or> int (length xs) \<le> j \<Longrightarrow> js_index xs j = None"
  by (auto simp: js_index_def)

lemma morph_index: "index (morph j p) = j"
  by (simp add: morph_def gsap_fromTo_def Let_def)

lemma morph_positions: "positions (morph j p) = positions p"
  by (simp add: morph_def gsap_fromTo_def Let_def)

lemma auto_advance_positions: "positions (auto_advance p) = positions p"
  by (simp add: auto_advance_def morph_positions)

lemma auto_advance_morph:
  assumes "0 \<le> index p" "index p < int (length (positions p))"
  shows "auto_advance p = morph ((index p + 1) mod int (length (positions p))) p"
proof (cases "index p \<ge> int (length (positions p)) - 1")
  case True
  with assms have "index p + 1 = int (length (positions p))" by simp
  then show ?thesis using True by (simp add: auto_advance_def)
next
  case False
  with assms have "(index p + 1) mod int (length (positions p)) = index p + 1" by simp
  then show ?thesis using False by (simp add: auto_advance_def)
qed

lemma funpow_auto_advance:
  assumes "0 \<le> index p" "index p < int (length (positions p))"
  shows "positions ((auto_advance ^^ k) p) = positions p \<and>
         index ((auto_advance ^^ k) p) = (index p + int k) mod int (length (positions p))"
proof (induction k)
  case 0
  with assms show ?case by simp
next
  case (Suc k)
  let ?q = "(auto_advance ^^ k) p"
  let ?n = "int (length (positions p))"
  from assms have n: "0 < ?n" by linarith
  from Suc have q: "positions ?q = positions p" "index ?q = (index p + int k) mod ?n" by simp_all
  have "0 \<le> index ?q" "index ?q < int (length (positions ?q))" using n q by simp_all
  from auto_advance_morph [OF this] have "index (auto_advance ?q) = (index ?q + 1) mod ?n"
    by (simp add: morph_index q(1))
  also have "\<dots> = (index p + int k + 1) mod ?n"
    by (simp add: q(2) mod_add_left_eq)
  also have "index p + int k + 1 = index p + int (Suc k)" by simp
  finally show ?case by (simp add: auto_advance_positions q(1))
qed

lemma fires_null: "particles w = None \<Longrightarrow> fires k w = (replicate k TypeError, w)"
  by (induction k) (simp_all add: timer_callback_def)

lemma fires_funpow:
  "particles w = Some p \<Longrightarrow> fires k w = ([], w\<lparr>particles := Some ((auto_advance ^^ k) p)\<rparr>)"
proof (induction k arbitrary: w p)
  case 0
  then show ?case by simp
next
  case (Suc k)
  have "particles (w\<lparr>particles := Some (auto_advance p)\<rparr>) = Some (auto_advance p)" by simp
  from Suc.IH [OF this] Suc.prems show ?case
    by (simp add: timer_callback_def funpow_swap1)
qed

lemma shifted_mod_inj:
  fixes i n :: int
  assumes "0 < n"
  shows "inj_on (\<lambda>j. (i + int j) mod n) {1..<Suc (nat n)}"
proof (rule inj_onI)
  fix a b assume a: "a \<in> {1..<Suc (nat n)}" and b: "b \<in> {1..<Suc (nat n)}"
    and e: "(i + int a) mod n = (i + int b) mod n"
  from e have "n dvd (i + int a) - (i + int b)" by (simp add: mod_eq_dvd_iff)
  then have d: "n dvd int a - int b" by simp
  from a b have lt: "\<bar>int a - int b\<bar> < n" by auto
  have "int a - int b = 0"
  proof (rule ccontr)
    assume "int a - int b \<noteq> 0"
    from dvd_imp_le_int [OF this d] lt show False by linarith
  qed
  then show "a = b" by simp
qed

section \<open>Square roots of the examples\<close>

lemma sqrt_quarter: "sqrt (1 / 4) = 1 / 2"
  by (rule real_sqrt_unique) (simp_all add: power2_eq_square)

lemma sqrt_sixteenth: "sqrt (1 / 16) = 1 / 4"
  by (rule real_sqrt_unique) (simp_all add: power2_eq_square)

section \<open>The properties\<close>

subsection \<open>Normalisation\<close>

text \<open>
  C1. A non-empty set of \<open>N\<close> clouds should give \<open>N\<close> variants, each of \<open>maxCount\<close>
  points. The callback does not do that for every input: the test that skips an attribute
  compares the number of floats of its array with \<open>maxCount\<close>, a number of points, and
  what it skips is pushed nowhere. For two clouds of one and three points, \<open>maxCount\<close>
  is 3, the first array has 3 floats, and \<open>particles.positions\<close> ends with one
  attribute, not two.
\<close>

theorem third_sized_variant_dropped:
  "length thirds_clouds = 2 \<and>
   map count thirds_clouds = [1, 3] \<and>
   list_all (well_formed (store (script_load thirds_store))) thirds_clouds \<and>
   out_attrs (on_load (const_rnd (1/2)) thirds_clouds (script_load thirds_store))
     = [\<lparr>array = 2, count = 3\<rparr>] \<and>
   length (out_attrs (on_load (const_rnd (1/2)) thirds_clouds (script_load thirds_store)))
     \<noteq> length thirds_clouds"
proof -
  have "list_all (well_formed (store (script_load thirds_store))) thirds_clouds"
    by (simp add: well_formed_def script_load_def swapModels_def thirds_store_def thirds_clouds_def)
  then show ?thesis by (simp add: thirds_loaded) (simp add: thirds_clouds_def)
qed

text \<open>
  C2, as the code has it. A cloud whose count is the largest, and not zero, is not passed
  through as the object it is: the callback pushes for it a newly allocated array, which
  is none of the input arrays, with the same floats in the same order and the same count.
  The input array is left as it was.
\<close>

theorem full_variant_is_copied:
  assumes wf: "list_all (well_formed (store w)) ps" and i: "i < length ps"
    and full: "count (ps ! i) = Max (count ` set ps)" and pos: "0 < count (ps ! i)"
  shows "out_index (store w) (max_loop ps 0) ps i < length (out_attrs (on_load rnd ps w)) \<and>
    contents (on_load rnd ps w) (variant_out rnd ps w i) = contents w (ps ! i) \<and>
    count (variant_out rnd ps w i) = count (ps ! i) \<and>
    array (variant_out rnd ps w i) \<notin> set (map array ps) \<and>
    contents (on_load rnd ps w) (ps ! i) = contents w (ps ! i)"
proof -
  from i have ne: "ps \<noteq> []" by auto
  have m: "max_loop ps 0 = count (ps ! i)" using full by (simp add: max_loop_Max [OF ne])
  note wfi = well_formed_nth [OF wf i]
  have keep: "length (store w ! array (ps ! i)) \<noteq> max_loop ps 0" using wfi m pos by simp
  note f = variant_out_facts [OF wf i keep, of rnd]
  from f(5) obtain k0 where
    "contents (on_load rnd ps w) (variant_out rnd ps w i)
       = fst (pad rnd (count (ps ! i)) (store w ! array (ps ! i)) (count (ps ! i)) k0)"
    unfolding m by blast
  then have c: "contents (on_load rnd ps w) (variant_out rnd ps w i) = contents w (ps ! i)"
    using wfi by (simp add: pad_full contents_def)
  have fresh: "array (variant_out rnd ps w i) \<notin> set (map array ps)"
  proof
    assume "array (variant_out rnd ps w i) \<in> set (map array ps)"
    then obtain p where "p \<in> set ps" "array p = array (variant_out rnd ps w i)" by auto
    with wf have "array (variant_out rnd ps w i) < length (store w)"
      by (auto simp: list_all_iff well_formed_def)
    with f(2) show False by simp
  qed
  have kept: "contents (on_load rnd ps w) (ps ! i) = contents w (ps ! i)"
    using wfi by (simp add: contents_def on_load_store_kept)
  from f(1) c f(4) fresh kept show ?thesis by (simp add: m)
qed

text \<open>An instance: the cloud of three points of the first example.\<close>

theorem full_variant_is_copied_witness:
  "list_all (well_formed (store (script_load example_store))) example_clouds \<and>
   count (example_clouds ! 1) = Max (count ` set example_clouds) \<and>
   contents (on_load (const_rnd (1/2)) example_clouds (script_load example_store))
     (variant_out (const_rnd (1/2)) example_clouds (script_load example_store) 1)
     = [Num 7, Num 8, Num 9, Num 10, Num 11, Num 12, Num 13, Num 14, Num 15] \<and>
   array (variant_out (const_rnd (1/2)) example_clouds (script_load example_store) 1)
     \<notin> set (map array example_clouds)"
proof -
  have wf: "list_all (well_formed (store (script_load example_store))) example_clouds"
    by (simp add: well_formed_def script_load_def swapModels_def example_store_def example_clouds_def)
  have i: "1 < length example_clouds" by (simp add: example_clouds_def)
  have full: "count (example_clouds ! 1) = Max (count ` set example_clouds)"
    by (simp add: example_clouds_def)
  have pos: "0 < count (example_clouds ! 1)" by (simp add: example_clouds_def)
  have orig: "contents (script_load example_store) (example_clouds ! 1)
     = [Num 7, Num 8, Num 9, Num 10, Num 11, Num 12, Num 13, Num 14, Num 15]"
    by (simp add: contents_def script_load_def swapModels_def example_store_def example_clouds_def)
  from full_variant_is_copied [OF wf i full pos, of "const_rnd (1/2)"] wf full orig
  show ?thesis by simp
qed

text \<open>
  In that example the attribute pushed for the largest cloud is not the input attribute,
  and it does not wrap the input array.
\<close>

theorem full_variant_not_passed_through:
  "count (example_clouds ! 1) = Max (count ` set example_clouds) \<and>
   variant_out (const_rnd (1/2)) example_clouds (script_load example_store) 1
     \<noteq> example_clouds ! 1 \<and>
   array (variant_out (const_rnd (1/2)) example_clouds (script_load example_store) 1)
     \<noteq> array (example_clouds ! 1)"
proof -
  have "max_loop example_clouds 0 = 3" by (simp add: example_clouds_def)
  moreover have "out_index example_store 3 example_clouds 1 = 1"
    by (simp add: out_index_def skipped_def example_store_def example_clouds_def)
  moreover have "store (script_load example_store) = example_store"
    by (simp add: script_load_def swapModels_def)
  ultimately have "variant_out (const_rnd (1/2)) example_clouds (script_load example_store) 1
      = \<lparr>array = 3, count = 3\<rparr>"
    by (simp add: variant_out_def example_loaded out_attrs_def)
  then show ?thesis by (simp add: example_clouds_def)
qed




text \<open>
  C4, as the code has it. The callback has no failure path. For every input it builds the
  particle set, with \<open>maxCount\<close> the largest count, or 0 when there is none; for the
  empty input \<open>particles.positions\<close> is empty; and for a cloud without points beside a
  cloud with points it pushes a variant of \<open>maxCount\<close> points whose coordinates are
  all NaN.
\<close>

theorem on_load_never_fails:
  "(\<exists>p. particles (on_load rnd ps w) = Some p \<and>
        maxCount p = Max (insert 0 (count ` set ps)) \<and>
        positions p = out_attrs (on_load rnd ps w)) \<and>
   out_attrs (on_load rnd [] w) = [] \<and>
   (list_all (well_formed (store w)) ps \<and> i < length ps \<and> count (ps ! i) = 0 \<and>
      0 < Max (count ` set ps) \<longrightarrow>
    out_index (store w) (max_loop ps 0) ps i < length (out_attrs (on_load rnd ps w)) \<and>
    contents (on_load rnd ps w) (variant_out rnd ps w i)
      = replicate (3 * Max (count ` set ps)) NaN)"
proof -
  have a: "\<exists>p. particles (on_load rnd ps w) = Some p \<and>
        maxCount p = Max (insert 0 (count ` set ps)) \<and>
        positions p = out_attrs (on_load rnd ps w)"
    using max_loop_Max0 [of ps] by (simp add: on_load_particles)
  have b: "out_attrs (on_load rnd [] w) = []"
    by (simp add: on_load_def out_attrs_def)
  have c: "out_index (store w) (max_loop ps 0) ps i < length (out_attrs (on_load rnd ps w)) \<and>
    contents (on_load rnd ps w) (variant_out rnd ps w i)
      = replicate (3 * Max (count ` set ps)) NaN"
    if wf: "list_all (well_formed (store w)) ps" and i: "i < length ps"
      and z: "count (ps ! i) = 0" and pos: "0 < Max (count ` set ps)"
  proof -
    from i have ne: "ps \<noteq> []" by auto
    note m = max_loop_Max [OF ne]
    note wfi = well_formed_nth [OF wf i]
    have e: "store w ! array (ps ! i) = []" using wfi z by simp
    have kp: "length (store w ! array (ps ! i)) \<noteq> max_loop ps 0" using e m pos by simp
    note f = variant_out_facts [OF wf i kp, of rnd]
    from f(5) f(1) show ?thesis by (auto simp: e pad_empty m)
  qed
  from a b c show ?thesis by blast
qed

text \<open>An instance: the cloud without points of the third example.\<close>

theorem on_load_never_fails_witness:
  "list_all (well_formed (store (script_load hollow_store))) hollow_clouds \<and>
   count (hollow_clouds ! 0) = 0 \<and> 0 < Max (count ` set hollow_clouds) \<and>
   contents (on_load (const_rnd (1/2)) hollow_clouds (script_load hollow_store))
     (variant_out (const_rnd (1/2)) hollow_clouds (script_load hollow_store) 0)
     = [NaN, NaN, NaN]"
proof -
  have wf: "list_all (well_formed (store (script_load hollow_store))) hollow_clouds"
    by (simp add: well_formed_def script_load_def swapModels_def hollow_store_def hollow_clouds_def)
  have h: "0 < length hollow_clouds" "count (hollow_clouds ! 0) = 0"
    "0 < Max (count ` set hollow_clouds)" "Max (count ` set hollow_clouds) = 1"
    by (simp_all add: hollow_clouds_def)
  from on_load_never_fails [of "const_rnd (1/2)" hollow_clouds "script_load hollow_store" 0] wf h
  have "contents (on_load (const_rnd (1/2)) hollow_clouds (script_load hollow_store))
     (variant_out (const_rnd (1/2)) hollow_clouds (script_load hollow_store) 0)
     = replicate (3 * 1) NaN" by simp
  with wf h show ?thesis by (simp add: eval_nat_numeral)
qed

text \<open>
  With no cloud at all, and with a cloud without points, the callback returns normally and
  \<open>particles\<close> is an object afterwards.
\<close>

theorem particle_set_built_without_geometry:
  "particles (on_load (const_rnd (1/2)) [] (script_load [])) =
     Some \<lparr>index = 0, maxCount = 0, positions = [], position_attr = None,
           aPositionTarget = None, uProgress = 0, rotation = 0, tweens = []\<rparr> \<and>
   count (hollow_clouds ! 0) = 0 \<and>
   particles (on_load (const_rnd (1/2)) hollow_clouds (script_load hollow_store)) \<noteq> None"
  by (simp add: hollow_loaded) (simp add: eval_defs hollow_clouds_def)

subsection \<open>Morphing\<close>

text \<open>
  C5, as the code has it. \<open>morph\<close> does not check its index. With an index outside
  \<open>[0, positions.length)\<close> it returns normally, having stored the index, set the
  target attribute to \<open>undefined\<close>, set the source attribute from the old index, written
  0 to the progress and registered a tween.
\<close>

theorem morph_out_of_range:
  "j < 0 \<or> int (length (positions p)) \<le> j \<Longrightarrow>
   morph j p =
     p\<lparr>index := j,
       position_attr := js_index (positions p) (index p),
       aPositionTarget := None,
       uProgress := 0,
       tweens := tweens p @ [\<lparr>from_value = 0, to_value = 1, duration = 3, ease = ''linear''\<rparr>]\<rparr>"
  by (simp add: morph_def gsap_fromTo_def Let_def js_index_outside)

text \<open>An instance: index 7 with four variants.\<close>

theorem morph_out_of_range_witness:
  "((7::int) < 0 \<or> int (length (positions four_particles)) \<le> 7) \<and>
   index (morph 7 four_particles) = 7 \<and>
   aPositionTarget (morph 7 four_particles) = None \<and>
   length (tweens (morph 7 four_particles)) = 1"
proof -
  have h: "(7::int) < 0 \<or> int (length (positions four_particles)) \<le> 7"
    by (simp add: four_particles_def)
  have t: "tweens four_particles = []" by (simp add: four_particles_def)
  from morph_out_of_range [OF h] h t show ?thesis by simp
qed

text \<open>With four variants, \<open>morph(7)\<close> changes the state: the index becomes 7.\<close>

theorem morph_accepts_bad_index:
  "length (positions four_particles) = 4 \<and> index four_particles = 0 \<and>
   index (morph 7 four_particles) = 7 \<and>
   morph 7 four_particles \<noteq> four_particles"
proof -
  have a: "length (positions four_particles) = 4" "index four_particles = 0"
    by (simp_all add: four_particles_def)
  have b: "index (morph 7 four_particles) = 7"
    by (simp add: morph_def gsap_fromTo_def Let_def)
  then have "morph 7 four_particles \<noteq> four_particles" using a(2) by auto
  with a b show ?thesis by simp
qed

text \<open>
  C6, as the code has it. A second \<open>morph(j)\<close>, run before anything else happens to the
  tween of a first \<open>morph(i)\<close>, stores \<open>j\<close> as the index, makes variant \<open>j\<close> the
  target and variant \<open>i\<close> the source, and writes 0 to the progress. It does not cancel
  the tween of the first call: two tweens on the progress are registered afterwards.
\<close>

theorem second_morph_preempts:
  "index (morph j (morph i p)) = j \<and>
   aPositionTarget (morph j (morph i p)) = js_index (positions p) j \<and>
   position_attr (morph j (morph i p)) = js_index (positions p) i \<and>
   uProgress (morph j (morph i p)) = 0 \<and>
   tweens (morph j (morph i p)) =
     tweens p @ [\<lparr>from_value = 0, to_value = 1, duration = 3, ease = ''linear''\<rparr>,
                 \<lparr>from_value = 0, to_value = 1, duration = 3, ease = ''linear''\<rparr>]"
  by (simp add: morph_def gsap_fromTo_def Let_def)

text \<open>
  After \<open>morph(2)\<close> twice in a row on a particle set without tweens, two tweens are
  registered, not one.
\<close>

theorem two_tweens_after_two_morphs:
  "tweens four_particles = [] \<and>
   length (tweens (morph 2 (morph 2 four_particles))) = 2 \<and>
   length (tweens (morph 2 (morph 2 four_particles))) \<noteq> 1"
  by (simp add: morph_def gsap_fromTo_def Let_def four_particles_def)

subsection \<open>The timer\<close>

text \<open>
  C7. Once the particle set exists and its index is in range, a firing of the timer calls
  \<open>morph\<close> with the successor of the index modulo the number of variants; any number
  of firings in a row run without fault; the targets of as many firings as there are
  variants are pairwise different and are all the indices; after that many firings the
  sequence starts again. The period that \<open>swapModels\<close> registers is 4000 ms.
\<close>

theorem auto_advance_cycle:
  assumes "particles w = Some p" and "0 \<le> index p"
    and "index p < int (length (positions p))"
  shows "timer_callback w =
      Inr (w\<lparr>particles := Some (morph ((index p + 1) mod int (length (positions p))) p)\<rparr>) \<and>
    (\<forall>k. fires k w = ([], w\<lparr>particles := Some ((auto_advance ^^ k) p)\<rparr>)) \<and>
    distinct (visited (length (positions p)) p) \<and>
    set (visited (length (positions p)) p) = {0..<int (length (positions p))} \<and>
    (\<forall>k. index ((auto_advance ^^ (k + length (positions p))) p)
           = index ((auto_advance ^^ k) p)) \<and>
    interval_ms (swapModels w) = Some 4000"
proof -
  let ?N = "length (positions p)"
  let ?n = "int ?N"
  from assms(2,3) have n: "0 < ?n" by linarith
  note it = funpow_auto_advance [OF assms(2,3)]
  have v: "visited ?N p = map (\<lambda>j. (index p + int j) mod ?n) [1..<Suc ?N]"
    by (simp add: visited_def it)
  have a: "timer_callback w =
      Inr (w\<lparr>particles := Some (morph ((index p + 1) mod ?n) p)\<rparr>)"
    using assms(1) auto_advance_morph [OF assms(2,3)] by (simp add: timer_callback_def)
  have b: "\<forall>k. fires k w = ([], w\<lparr>particles := Some ((auto_advance ^^ k) p)\<rparr>)"
    using fires_funpow [OF assms(1)] by blast
  have inj: "inj_on (\<lambda>j. (index p + int j) mod ?n) {1..<Suc ?N}"
    using shifted_mod_inj [OF n, of "index p"] by simp
  have c: "distinct (visited ?N p)"
    unfolding v using inj by (simp add: distinct_map del: upt_Suc)
  have sub: "set (visited ?N p) \<subseteq> {0..<?n}"
    unfolding v using n by (auto simp del: upt_Suc)
  have "card (set (visited ?N p)) = ?N"
    using c by (simp add: distinct_card) (simp add: v del: upt_Suc)
  then have "card (set (visited ?N p)) = card {0..<?n}" by simp
  with sub have d: "set (visited ?N p) = {0..<?n}"
    by (intro card_subset_eq) simp_all
  have e: "\<forall>k. index ((auto_advance ^^ (k + ?N)) p) = index ((auto_advance ^^ k) p)"
    using funpow_auto_advance [OF assms(2,3)] by (simp add: add.assoc [symmetric])
  have f: "interval_ms (swapModels w) = Some 4000" by (simp add: swapModels_def)
  from a b c d e f show ?thesis by blast
qed

text \<open>An instance: four variants, starting at index 0.\<close>

theorem auto_advance_cycle_witness:
  "particles (script_load [] \<lparr>particles := Some four_particles\<rparr>) = Some four_particles \<and>
   0 \<le> index four_particles \<and> index four_particles < int (length (positions four_particles)) \<and>
   timer_callback (script_load [] \<lparr>particles := Some four_particles\<rparr>) =
     Inr (script_load [] \<lparr>particles := Some (morph 1 four_particles)\<rparr>) \<and>
   set (visited 4 four_particles) = {0..<4}"
proof -
  have h: "particles (script_load [] \<lparr>particles := Some four_particles\<rparr>) = Some four_particles"
    "0 \<le> index four_particles" "index four_particles < int (length (positions four_particles))"
    by (simp_all add: four_particles_def)
  have l: "length (positions four_particles) = 4" "index four_particles = 0"
    by (simp_all add: four_particles_def)
  from auto_advance_cycle [OF h] h show ?thesis by (simp add: l)
qed

subsection \<open>The progress of a transition\<close>

text \<open>
  C8. Every \<open>morph\<close> writes 0 to the progress and starts a tween from 0 to 1 of
  duration 3 with the ease \<open>linear\<close>; the render callback leaves the progress and the
  tweens as they are. Under the linear law the progress of a transition is 0 at its
  start, \<open>t / 3\<close> after \<open>t\<close> time units and 1 from 3 time units on: it never
  decreases, and it is 0 at no time after the start, so it is back at 0 only when a
  \<open>morph\<close> starts a transition again.
\<close>

theorem progress_within_transition:
  "uProgress (morph j p) = 0 \<and>
   last (tweens (morph j p)) =
     \<lparr>from_value = 0, to_value = 1, duration = 3, ease = ''linear''\<rparr> \<and>
   (particles w = Some q \<and> tick elapsedTime w = Inr w' \<longrightarrow>
      (\<exists>q'. particles w' = Some q' \<and> uProgress q' = uProgress q \<and> tweens q' = tweens q)) \<and>
   progress_at (morph j p) t = (if t \<le> 0 then 0 else if 3 \<le> t then 1 else t / 3) \<and>
   (s \<le> t \<longrightarrow> progress_at (morph j p) s \<le> progress_at (morph j p) t) \<and>
   (0 < t \<longrightarrow> 0 < progress_at (morph j p) t)"
proof -
  have a: "particles w = Some q \<and> tick elapsedTime w = Inr w' \<longrightarrow>
      (\<exists>q'. particles w' = Some q' \<and> uProgress q' = uProgress q \<and> tweens q' = tweens q)"
    by (auto simp: tick_def)
  have b: "s \<le> t \<longrightarrow> progress_at (morph j p) s \<le> progress_at (morph j p) t"
    by (simp add: progress_at_morph)
  have c: "0 < t \<longrightarrow> 0 < progress_at (morph j p) t"
    by (simp add: progress_at_morph)
  from a b c show ?thesis by (simp add: morph_tween progress_at_morph)
qed

text \<open>An instance: a transition to variant 1 of four, seen after 0, 1, 2 and 3 time units.\<close>

theorem progress_within_transition_witness:
  "particles (script_load [] \<lparr>particles := Some four_particles\<rparr>) = Some four_particles \<and>
   (\<exists>q'. tick 5 (script_load [] \<lparr>particles := Some four_particles\<rparr>)
           = Inr (script_load [] \<lparr>particles := Some q'\<rparr>) \<and>
         uProgress q' = uProgress four_particles \<and> tweens q' = tweens four_particles) \<and>
   progress_at (morph 1 four_particles) 0 = 0 \<and>
   progress_at (morph 1 four_particles) 1 = 1 / 3 \<and>
   progress_at (morph 1 four_particles) 3 = 1 \<and>
   progress_at (morph 1 four_particles) 1 \<le> progress_at (morph 1 four_particles) 2 \<and>
   0 < progress_at (morph 1 four_particles) 1"
proof -
  let ?w = "script_load [] \<lparr>particles := Some four_particles\<rparr>"
  have h: "particles ?w = Some four_particles" by simp
  obtain w' where t: "tick 5 ?w = Inr w'" by (simp add: tick_def)
  note th = progress_within_transition [of 1 four_particles ?w four_particles 5 w']
  from th [of 1 1] h t obtain q' where q: "particles w' = Some q'"
    "uProgress q' = uProgress four_particles" "tweens q' = tweens four_particles" by blast
  from t q(1) have "w' = ?w\<lparr>particles := Some q'\<rparr>" by (auto simp: tick_def)
  with t q have tk: "\<exists>q'. tick 5 ?w = Inr (script_load [] \<lparr>particles := Some q'\<rparr>) \<and>
         uProgress q' = uProgress four_particles \<and> tweens q' = tweens four_particles"
    by auto
  have p0: "progress_at (morph 1 four_particles) 0 = 0" using th [of 0 0] by simp
  have p1: "progress_at (morph 1 four_particles) 1 = 1 / 3" using th [of 1 1] by simp
  have p3: "progress_at (morph 1 four_particles) 3 = 1" using th [of 3 3] by simp
  have mono: "progress_at (morph 1 four_particles) 1 \<le> progress_at (morph 1 four_particles) 2"
    using th [of 2 1] by simp
  have pos: "0 < progress_at (morph 1 four_particles) 1" using th [of 1 1] by simp
  from h tk p0 p1 p3 mono pos show ?thesis by blast
qed

subsection \<open>The timer before the load\<close>

text \<open>
  C10. When the script has run, \<open>particles\<close> is \<open>null\<close> and the timer is
  registered. A firing of the timer while \<open>particles\<close> is \<open>null\<close> throws a
  TypeError, and so does every further firing until the particle set exists; the render
  callback, which tests \<open>particles\<close> first, does not.
\<close>

theorem timer_faults_before_load:
  "particles (script_load h) = None \<and>
   interval_ms (script_load h) = Some 4000 \<and>
   (particles w = None \<longrightarrow>
      timer_callback w = Inl TypeError \<and>
      fires k w = (replicate k TypeError, w) \<and>
      tick elapsedTime w = Inr w)"
  by (simp add: script_load_def swapModels_def timer_callback_def tick_def fires_null)

text \<open>An instance: the state right after the script has run.\<close>

theorem timer_faults_before_load_witness:
  "particles (script_load []) = None \<and>
   timer_callback (script_load []) = Inl TypeError \<and>
   fires 2 (script_load []) = ([TypeError, TypeError], script_load []) \<and>
   tick 0 (script_load []) = Inr (script_load [])"
  using timer_faults_before_load [of "[]" "script_load []" 2 0]
  by (simp add: eval_nat_numeral)

subsection \<open>The fragment shader\<close>

text \<open>
  C9. The alpha of a fragment is \<open>0.05 / d - 0.1\<close> for the distance \<open>d\<close> of the point
  coordinate to the centre of the sprite; it is 0 at distance 0.5, the edge of the
  sprite, and 0.1 at distance 0.25. The distance is the Euclidean one to the point
  \<open>(0.5, 0.5)\<close>: the root of the sum of the squares of both offsets, never negative,
  zero at the centre only, the same on either side of the centre and in either
  direction; so the alpha is 0 at the middle of each edge and wherever else the distance
  is 0.5, and 0.1 wherever it is 0.25, on the axes and off them.
\<close>

theorem fragment_alpha:
  "main uv = (1, 1, 1, alpha (distanceToCenter uv)) \<and>
   alpha d = (if d = 0 then None else Some (0.05 / d - 0.1)) \<and>
   alpha 0.5 = Some 0.0 \<and>
   alpha 0.25 = Some 0.1 \<and>
   main (1, 0.5) = (1, 1, 1, Some 0) \<and>
   main (0.75, 0.5) = (1, 1, 1, Some 0.1) \<and>
   distanceToCenter (x, y) = sqrt ((x - 0.5)\<^sup>2 + (y - 0.5)\<^sup>2) \<and>
   0 \<le> distanceToCenter uv \<and>
   (distanceToCenter uv = 0) = (uv = (0.5, 0.5)) \<and>
   distanceToCenter (1 - x, y) = distanceToCenter (x, y) \<and>
   distanceToCenter (y, x) = distanceToCenter (x, y) \<and>
   distanceToCenter (0.8, 0.9) = 0.5 \<and>
   distanceToCenter (0.35, 0.3) = 0.25 \<and>
   main (0.5, 0.5) = (1, 1, 1, None) \<and>
   main (0.5, 0) = (1, 1, 1, Some 0) \<and>
   main (0, 0.5) = (1, 1, 1, Some 0) \<and>
   main (0.8, 0.9) = (1, 1, 1, Some 0) \<and>
   main (0.2, 0.1) = (1, 1, 1, Some 0) \<and>
   main (0.5, 0.75) = (1, 1, 1, Some 0.1) \<and>
   main (0.35, 0.3) = (1, 1, 1, Some 0.1)"
proof -
  have zero: "(distanceToCenter uv = 0) = (uv = (0.5, 0.5))"
  proof -
    have "(distanceToCenter uv = 0) = (fst uv = 0.5 \<and> snd uv = 0.5)"
      by (simp add: distanceToCenter_def sum_power2_eq_zero_iff)
    also have "\<dots> = (uv = (0.5, 0.5))" by (cases uv) simp
    finally show ?thesis .
  qed
  have sym: "distanceToCenter (1 - x, y) = distanceToCenter (x, y)"
    "distanceToCenter (y, x) = distanceToCenter (x, y)"
    by (simp_all add: distanceToCenter_def power2_eq_square algebra_simps)
  have a: "((0.8 :: real) - 0.5)\<^sup>2 + (0.9 - 0.5)\<^sup>2 = 1 / 4"
    "((0.2 :: real) - 0.5)\<^sup>2 + (0.1 - 0.5)\<^sup>2 = 1 / 4"
    "((0.35 :: real) - 0.5)\<^sup>2 + (0.3 - 0.5)\<^sup>2 = 1 / 16"
    by (simp_all add: power2_eq_square)
  have d: "distanceToCenter (0.8, 0.9) = 0.5" "distanceToCenter (0.2, 0.1) = 0.5"
    "distanceToCenter (0.35, 0.3) = 0.25"
    unfolding distanceToCenter_def fst_conv snd_conv a by (simp_all add: sqrt_quarter sqrt_sixteenth)
  have e: "distanceToCenter (1, 0.5) = 0.5" "distanceToCenter (0.75, 0.5) = 0.25"
    "distanceToCenter (0.5, 0.5) = 0" "distanceToCenter (0.5, 0) = 0.5"
    "distanceToCenter (0, 0.5) = 0.5" "distanceToCenter (0.5, 0.75) = 0.25"
    by (simp_all add: distanceToCenter_def)
  have m: "main uv = (1, 1, 1, alpha (distanceToCenter uv))" for uv
    by (simp add: main_def)
  have al: "alpha 0.5 = Some 0.0" "alpha 0.25 = Some 0.1" "alpha 0 = None"
    by (simp_all add: alpha_def)
  have al': "alpha 0.5 = Some 0" by (simp add: alpha_def)
  have nonneg: "0 \<le> distanceToCenter uv" by (simp add: distanceToCenter_def)
  have df: "distanceToCenter (x, y) = sqrt ((x - 0.5)\<^sup>2 + (y - 0.5)\<^sup>2)"
    by (simp add: distanceToCenter_def)
  have law: "alpha d = (if d = 0 then None else Some (0.05 / d - 0.1))" by (simp add: alpha_def)
  show ?thesis
    unfolding m d e al al' using zero sym nonneg df law d(1,3) al al' by simp
qed

end
